theory Spec2Isabelle
  imports Main
begin

section \<open>The selector builder and the JSON helpers of 05-objects-tasks.js\<close>

text \<open>
  The file under verification defines the class \<^verbatim>\<open>BaseSelector\<close>, the constructor
  function \<^verbatim>\<open>BaseCombiner\<close> and the facade object \<^verbatim>\<open>cssSelectorBuilder\<close>.
  A method of \<^verbatim>\<open>BaseSelector\<close> reads and writes the fields of \<^verbatim>\<open>this\<close> and
  either returns or throws. It is modelled as a function from the instance's state to
  an outcome (\<open>Inl\<close> the error thrown, \<open>Inr\<close> the value returned) paired with the
  state the instance is left in, so that the state after a throw is part of the model.

  The helpers \<^verbatim>\<open>getJSON\<close> and \<^verbatim>\<open>fromJSON\<close> come after the selector builder;
  \<^verbatim>\<open>Rectangle\<close> is not modelled.
\<close>

subsection \<open>Errors and method outcomes\<close>

text \<open>
  \<^verbatim>\<open>throwOrder\<close> and \<^verbatim>\<open>throwUnique\<close> both throw an \<^verbatim>\<open>Error\<close>, told apart by
  the message. \<open>OrderError\<close> stands for the message of \<^verbatim>\<open>throwOrder\<close>,
  \<open>UniquenessError\<close> for the message of \<^verbatim>\<open>throwUnique\<close>.
\<close>

datatype error = OrderError | UniquenessError

type_synonym ('s, 'a) meth = "'s \<Rightarrow> (error + 'a) \<times> 's"

definition ret :: "'a \<Rightarrow> ('s, 'a) meth" where
  "ret x this = (Inr x, this)"

definition throw :: "error \<Rightarrow> ('s, 'a) meth" where
  "throw e this = (Inl e, this)"

definition modify :: "('s \<Rightarrow> 's) \<Rightarrow> ('s, unit) meth" where
  "modify f this = (Inr (), f this)"

text \<open>Sequencing of statements: a throw skips everything after it.\<close>

definition seq :: "('s, 'a) meth \<Rightarrow> ('a \<Rightarrow> ('s, 'b) meth) \<Rightarrow> ('s, 'b) meth" where
  "seq m f this =
     (case m this of
        (Inl e, this') \<Rightarrow> (Inl e, this')
      | (Inr x, this') \<Rightarrow> f x this')"

text \<open>\<^verbatim>\<open>if (c) stmt;\<close> with no else branch.\<close>

definition if_stmt :: "bool \<Rightarrow> ('s, unit) meth \<Rightarrow> ('s, unit) meth" where
  "if_stmt c m = (if c then m else ret ())"

subsection \<open>The instance state\<close>

text \<open>
  The fields of a \<^verbatim>\<open>BaseSelector\<close>. The type parameter is how the three arrays are
  held: by value (\<open>string list\<close>) in the semantics of one instance, by reference (an
  address) in the store semantics further down. \<^verbatim>\<open>callOrder\<close> is never assigned by
  the constructor, so it is \<^verbatim>\<open>undefined\<close> (\<open>None\<close>) until \<^verbatim>\<open>checkOrder\<close> first
  writes it.
\<close>

record 'arr BaseSelector =
  el_element :: string
  el_id :: string
  el_class :: 'arr
  el_attr :: 'arr
  el_pseudoClass :: 'arr
  el_pseudoElement :: string
  callOrder :: "nat option"

text \<open>
  \<^verbatim>\<open>this.callOrder > order\<close>: with \<^verbatim>\<open>undefined\<close> on the left the comparison is
  on \<^verbatim>\<open>NaN\<close> and yields false.
\<close>

definition js_gt :: "nat option \<Rightarrow> nat \<Rightarrow> bool" where
  "js_gt c order = (case c of None \<Rightarrow> False | Some k \<Rightarrow> k > order)"

definition throwOrder :: "('s, 'a) meth" where
  "throwOrder = throw OrderError"

definition throwUnique :: "('s, 'a) meth" where
  "throwUnique = throw UniquenessError"

subsection \<open>The mutators\<close>

definition checkOrder :: "nat \<Rightarrow> ('arr BaseSelector, unit) meth" where
  "checkOrder order this =
     (if js_gt (callOrder this) order then throwOrder this
      else modify (\<lambda>this. this\<lparr>callOrder := Some order\<rparr>) this)"

definition element :: "string \<Rightarrow> ('arr BaseSelector, unit) meth" where
  "element val this =
     (if length (el_element this) \<noteq> 0 then throwUnique this
      else seq (checkOrder 1) (\<lambda>_. modify (\<lambda>this. this\<lparr>el_element := val\<rparr>)) this)"

definition id_sel :: "string \<Rightarrow> ('arr BaseSelector, unit) meth" where
  "id_sel val this =
     (if length (el_id this) \<noteq> 0 then throwUnique this
      else seq (checkOrder 2) (\<lambda>_. modify (\<lambda>this. this\<lparr>el_id := val\<rparr>)) this)"

text \<open>\<^verbatim>\<open>push\<close> appends at the end of the array.\<close>

definition class_sel :: "string \<Rightarrow> (string list BaseSelector, unit) meth" where
  "class_sel val =
     seq (checkOrder 3) (\<lambda>_. modify (\<lambda>this. this\<lparr>el_class := el_class this @ [val]\<rparr>))"

definition attr :: "string \<Rightarrow> (string list BaseSelector, unit) meth" where
  "attr val =
     seq (checkOrder 4) (\<lambda>_. modify (\<lambda>this. this\<lparr>el_attr := el_attr this @ [val]\<rparr>))"

definition pseudoClass :: "string \<Rightarrow> (string list BaseSelector, unit) meth" where
  "pseudoClass val =
     seq (checkOrder 5)
       (\<lambda>_. modify (\<lambda>this. this\<lparr>el_pseudoClass := el_pseudoClass this @ [val]\<rparr>))"

definition pseudoElement :: "string \<Rightarrow> ('arr BaseSelector, unit) meth" where
  "pseudoElement val this =
     (if length (el_pseudoElement this) \<noteq> 0 then throwUnique this
      else seq (checkOrder 6) (\<lambda>_. modify (\<lambda>this. this\<lparr>el_pseudoElement := val\<rparr>)) this)"

subsection \<open>Printing\<close>

text \<open>
  \<^verbatim>\<open>Array.prototype.join\<close> on an array of strings: the elements with the separator
  between each two of them, the empty string for the empty array.
\<close>

fun join :: "string \<Rightarrow> string list \<Rightarrow> string" where
  "join sep [] = []"
| "join sep [x] = x"
| "join sep (x # y # ys) = x @ sep @ join sep (y # ys)"

definition printElement :: "(string list BaseSelector, string) meth" where
  "printElement this = ret (el_element this) this"

definition printId :: "(string list BaseSelector, string) meth" where
  "printId this =
     ret (if length (el_id this) \<noteq> 0 then ''#'' @ el_id this else '''') this"

definition printClass :: "(string list BaseSelector, string) meth" where
  "printClass this =
     ret (if length (el_class this) \<noteq> 0 then ''.'' @ join ''.'' (el_class this) else '''')
       this"

definition printAttr :: "(string list BaseSelector, string) meth" where
  "printAttr this = ret (join '''' (map (\<lambda>el. ''['' @ el @ '']'') (el_attr this))) this"

definition printPseudoClass :: "(string list BaseSelector, string) meth" where
  "printPseudoClass this =
     ret (if length (el_pseudoClass this) \<noteq> 0
          then '':'' @ join '':'' (el_pseudoClass this) else '''') this"

definition printPseudoElement :: "(string list BaseSelector, string) meth" where
  "printPseudoElement this =
     ret (if length (el_pseudoElement this) \<noteq> 0
          then ''::'' @ el_pseudoElement this else '''') this"

text \<open>The operands of \<^verbatim>\<open>+\<close> are evaluated from left to right.\<close>

definition stringify :: "(string list BaseSelector, string) meth" where
  "stringify =
     seq printElement (\<lambda>e. seq printId (\<lambda>i. seq printClass (\<lambda>c.
     seq printAttr (\<lambda>a. seq printPseudoClass (\<lambda>p. seq printPseudoElement (\<lambda>q.
       ret (e @ i @ c @ a @ p @ q)))))))"

subsection \<open>The constructor and the facade\<close>

text \<open>
  The constructor destructures its argument with the default \<^verbatim>\<open>''\<close> for every
  absent property, assigns the six fields of the new instance and then calls the
  mutator of every property whose length is not zero.
\<close>

record options =
  opt_element :: string
  opt_id :: string
  opt_className :: string
  opt_attr :: string
  opt_pseudoClass :: string
  opt_pseudoElement :: string

definition defaults :: options where
  "defaults = \<lparr>opt_element = '''', opt_id = '''', opt_className = '''', opt_attr = '''',
     opt_pseudoClass = '''', opt_pseudoElement = ''''\<rparr>"

definition fields_init :: "string list BaseSelector" where
  "fields_init = \<lparr>el_element = '''', el_id = '''', el_class = [], el_attr = [],
     el_pseudoClass = [], el_pseudoElement = '''', callOrder = None\<rparr>"

definition constructor :: "options \<Rightarrow> (error + unit) \<times> string list BaseSelector" where
  "constructor opts =
     seq (if_stmt (length (opt_element opts) \<noteq> 0) (element (opt_element opts))) (\<lambda>_.
     seq (if_stmt (length (opt_id opts) \<noteq> 0) (id_sel (opt_id opts))) (\<lambda>_.
     seq (if_stmt (length (opt_className opts) \<noteq> 0) (class_sel (opt_className opts))) (\<lambda>_.
     seq (if_stmt (length (opt_attr opts) \<noteq> 0) (attr (opt_attr opts))) (\<lambda>_.
     seq (if_stmt (length (opt_pseudoClass opts) \<noteq> 0) (pseudoClass (opt_pseudoClass opts))) (\<lambda>_.
     if_stmt (length (opt_pseudoElement opts) \<noteq> 0) (pseudoElement (opt_pseudoElement opts)))))))
     fields_init"

text \<open>\<^verbatim>\<open>new BaseSelector(opts)\<close>: the instance, unless the constructor throws.\<close>

definition new_BaseSelector :: "options \<Rightarrow> error + string list BaseSelector" where
  "new_BaseSelector opts =
     (case constructor opts of (Inl e, _) \<Rightarrow> Inl e | (Inr _, this) \<Rightarrow> Inr this)"

definition builder_element :: "string \<Rightarrow> error + string list BaseSelector" where
  "builder_element val = new_BaseSelector (defaults\<lparr>opt_element := val\<rparr>)"

definition builder_id :: "string \<Rightarrow> error + string list BaseSelector" where
  "builder_id val = new_BaseSelector (defaults\<lparr>opt_id := val\<rparr>)"

definition builder_class :: "string \<Rightarrow> error + string list BaseSelector" where
  "builder_class val = new_BaseSelector (defaults\<lparr>opt_className := val\<rparr>)"

definition builder_attr :: "string \<Rightarrow> error + string list BaseSelector" where
  "builder_attr val = new_BaseSelector (defaults\<lparr>opt_attr := val\<rparr>)"

definition builder_pseudoClass :: "string \<Rightarrow> error + string list BaseSelector" where
  "builder_pseudoClass val = new_BaseSelector (defaults\<lparr>opt_pseudoClass := val\<rparr>)"

definition builder_pseudoElement :: "string \<Rightarrow> error + string list BaseSelector" where
  "builder_pseudoElement val = new_BaseSelector (defaults\<lparr>opt_pseudoElement := val\<rparr>)"

subsection \<open>Call chains\<close>

text \<open>
  A category-adding call, and a chain \<^verbatim>\<open>sel.m1(v1).m2(v2)...\<close> of them on one
  instance: every mutator returns \<^verbatim>\<open>this\<close>, so the next call is on the same
  instance, and a throw ends the chain.
\<close>

datatype call =
  Element string | Id string | Class string | Attr string
  | PseudoClass string | PseudoElement string

fun invoke :: "call \<Rightarrow> (string list BaseSelector, unit) meth" where
  "invoke (Element v) = element v"
| "invoke (Id v) = id_sel v"
| "invoke (Class v) = class_sel v"
| "invoke (Attr v) = attr v"
| "invoke (PseudoClass v) = pseudoClass v"
| "invoke (PseudoElement v) = pseudoElement v"

fun chain :: "call list \<Rightarrow> (string list BaseSelector, unit) meth" where
  "chain [] = ret ()"
| "chain (c # cs) = seq (invoke c) (\<lambda>_. chain cs)"

text \<open>The facade entry point of each category.\<close>

fun facade :: "call \<Rightarrow> error + string list BaseSelector" where
  "facade (Element v) = builder_element v"
| "facade (Id v) = builder_id v"
| "facade (Class v) = builder_class v"
| "facade (Attr v) = builder_attr v"
| "facade (PseudoClass v) = builder_pseudoClass v"
| "facade (PseudoElement v) = builder_pseudoElement v"

text \<open>\<^verbatim>\<open>cssSelectorBuilder.m0(v0).m1(v1)...\<close>: a facade call and a chain on its result.\<close>

definition build :: "call \<Rightarrow> call list \<Rightarrow> error + string list BaseSelector" where
  "build c cs =
     (case facade c of
        Inl e \<Rightarrow> Inl e
      | Inr this \<Rightarrow> (case chain cs this of (Inl e, _) \<Rightarrow> Inl e | (Inr _, this') \<Rightarrow> Inr this'))"

subsection \<open>Combined selectors\<close>

text \<open>
  \<^verbatim>\<open>BaseCombiner\<close> keeps its two operands and the combining token; its
  \<^verbatim>\<open>stringify\<close> calls \<^verbatim>\<open>stringify\<close> of the first operand, then of the second.
  An operand is a selector or again a combined selector.
\<close>

datatype node =
  Selector "string list BaseSelector"
  | BaseCombiner node string node

fun stringify_node :: "(node, string) meth" where
  "stringify_node (Selector this) =
     (case stringify this of (r, this') \<Rightarrow> (r, Selector this'))"
| "stringify_node (BaseCombiner selector1 combiner selector2) =
     (case stringify_node selector1 of
        (Inl e, selector1') \<Rightarrow> (Inl e, BaseCombiner selector1' combiner selector2)
      | (Inr x, selector1') \<Rightarrow>
          (case stringify_node selector2 of
             (Inl e, selector2') \<Rightarrow> (Inl e, BaseCombiner selector1' combiner selector2')
           | (Inr y, selector2') \<Rightarrow>
               (Inr (x @ '' '' @ combiner @ '' '' @ y),
                BaseCombiner selector1' combiner selector2')))"

definition combine :: "node \<Rightarrow> string \<Rightarrow> node \<Rightarrow> node" where
  "combine selector1 combiner selector2 = BaseCombiner selector1 combiner selector2"

subsection \<open>Instances in a store\<close>

text \<open>
  Which instance a call works on matters as soon as there are two of them. In the
  store semantics every \<^verbatim>\<open>BaseSelector\<close> instance and every array lives at an
  address: \<^verbatim>\<open>new BaseSelector(...)\<close> allocates an instance, each array literal
  \<^verbatim>\<open>[]\<close> of the constructor allocates an array, an instance holds its three arrays
  by reference, and a mutator is called on the address of \<^verbatim>\<open>this\<close> and returns that
  address (\<^verbatim>\<open>return this\<close>). Instances and arrays are kept in two lists, the address
  being the index; allocation appends. A program only holds references to allocated
  objects, so the properties below are about addresses below the length of the list.
\<close>

type_synonym addr = nat

record store =
  selectors :: "addr BaseSelector list"
  arrays :: "string list list"

definition empty_store :: store where
  "empty_store = \<lparr>selectors = [], arrays = []\<rparr>"

text \<open>A method that reads and writes the fields of the instance at \<open>this\<close>.\<close>

definition on_instance :: "addr \<Rightarrow> (addr BaseSelector, 'a) meth \<Rightarrow> (store, 'a) meth" where
  "on_instance this m h =
     (case m (selectors h ! this) of
        (r, s) \<Rightarrow> (r, h\<lparr>selectors := (selectors h)[this := s]\<rparr>))"

definition get_field :: "(addr BaseSelector \<Rightarrow> 'a) \<Rightarrow> addr \<Rightarrow> (store, 'a) meth" where
  "get_field f this h = ret (f (selectors h ! this)) h"

definition new_array :: "(store, addr) meth" where
  "new_array h = ret (length (arrays h)) (h\<lparr>arrays := arrays h @ [[]]\<rparr>)"

definition new_instance :: "addr BaseSelector \<Rightarrow> (store, addr) meth" where
  "new_instance s h = ret (length (selectors h)) (h\<lparr>selectors := selectors h @ [s]\<rparr>)"

text \<open>\<^verbatim>\<open>a.push(val)\<close> on the array at address \<open>a\<close>.\<close>

definition push :: "addr \<Rightarrow> string \<Rightarrow> (store, unit) meth" where
  "push a val = modify (\<lambda>h. h\<lparr>arrays := (arrays h)[a := arrays h ! a @ [val]]\<rparr>)"

text \<open>An expression statement: the value of the call is dropped.\<close>

definition discard :: "('s, 'a) meth \<Rightarrow> ('s, unit) meth" where
  "discard m = seq m (\<lambda>_. ret ())"

definition s_element :: "string \<Rightarrow> addr \<Rightarrow> (store, addr) meth" where
  "s_element val this = seq (on_instance this (element val)) (\<lambda>_. ret this)"

definition s_id :: "string \<Rightarrow> addr \<Rightarrow> (store, addr) meth" where
  "s_id val this = seq (on_instance this (id_sel val)) (\<lambda>_. ret this)"

definition s_class :: "string \<Rightarrow> addr \<Rightarrow> (store, addr) meth" where
  "s_class val this =
     seq (on_instance this (checkOrder 3)) (\<lambda>_.
     seq (get_field el_class this) (\<lambda>a.
     seq (push a val) (\<lambda>_. ret this)))"

definition s_attr :: "string \<Rightarrow> addr \<Rightarrow> (store, addr) meth" where
  "s_attr val this =
     seq (on_instance this (checkOrder 4)) (\<lambda>_.
     seq (get_field el_attr this) (\<lambda>a.
     seq (push a val) (\<lambda>_. ret this)))"

definition s_pseudoClass :: "string \<Rightarrow> addr \<Rightarrow> (store, addr) meth" where
  "s_pseudoClass val this =
     seq (on_instance this (checkOrder 5)) (\<lambda>_.
     seq (get_field el_pseudoClass this) (\<lambda>a.
     seq (push a val) (\<lambda>_. ret this)))"

definition s_pseudoElement :: "string \<Rightarrow> addr \<Rightarrow> (store, addr) meth" where
  "s_pseudoElement val this = seq (on_instance this (pseudoElement val)) (\<lambda>_. ret this)"

text \<open>
  \<^verbatim>\<open>new BaseSelector(opts)\<close>: three new arrays, the new instance holding them, then
  the mutator of every property whose length is not zero, called on the new instance.
  The value of the \<^verbatim>\<open>new\<close> expression is the address of the instance.
\<close>

definition s_new_BaseSelector :: "options \<Rightarrow> (store, addr) meth" where
  "s_new_BaseSelector opts =
     seq new_array (\<lambda>c. seq new_array (\<lambda>a. seq new_array (\<lambda>p.
     seq (new_instance \<lparr>el_element = '''', el_id = '''', el_class = c, el_attr = a,
            el_pseudoClass = p, el_pseudoElement = '''', callOrder = None\<rparr>) (\<lambda>this.
     seq (if_stmt (length (opt_element opts) \<noteq> 0)
            (discard (s_element (opt_element opts) this))) (\<lambda>_.
     seq (if_stmt (length (opt_id opts) \<noteq> 0)
            (discard (s_id (opt_id opts) this))) (\<lambda>_.
     seq (if_stmt (length (opt_className opts) \<noteq> 0)
            (discard (s_class (opt_className opts) this))) (\<lambda>_.
     seq (if_stmt (length (opt_attr opts) \<noteq> 0)
            (discard (s_attr (opt_attr opts) this))) (\<lambda>_.
     seq (if_stmt (length (opt_pseudoClass opts) \<noteq> 0)
            (discard (s_pseudoClass (opt_pseudoClass opts) this))) (\<lambda>_.
     seq (if_stmt (length (opt_pseudoElement opts) \<noteq> 0)
            (discard (s_pseudoElement (opt_pseudoElement opts) this))) (\<lambda>_.
     ret this))))))))))"

text \<open>The facade entry points, a call on an address, and a chain of calls.\<close>

fun s_facade :: "call \<Rightarrow> (store, addr) meth" where
  "s_facade (Element v) = s_new_BaseSelector (defaults\<lparr>opt_element := v\<rparr>)"
| "s_facade (Id v) = s_new_BaseSelector (defaults\<lparr>opt_id := v\<rparr>)"
| "s_facade (Class v) = s_new_BaseSelector (defaults\<lparr>opt_className := v\<rparr>)"
| "s_facade (Attr v) = s_new_BaseSelector (defaults\<lparr>opt_attr := v\<rparr>)"
| "s_facade (PseudoClass v) = s_new_BaseSelector (defaults\<lparr>opt_pseudoClass := v\<rparr>)"
| "s_facade (PseudoElement v) = s_new_BaseSelector (defaults\<lparr>opt_pseudoElement := v\<rparr>)"

fun s_invoke :: "call \<Rightarrow> addr \<Rightarrow> (store, addr) meth" where
  "s_invoke (Element v) = s_element v"
| "s_invoke (Id v) = s_id v"
| "s_invoke (Class v) = s_class v"
| "s_invoke (Attr v) = s_attr v"
| "s_invoke (PseudoClass v) = s_pseudoClass v"
| "s_invoke (PseudoElement v) = s_pseudoElement v"

text \<open>In a chain the next call is made on the value the previous call returned.\<close>

fun s_chain :: "call list \<Rightarrow> addr \<Rightarrow> (store, addr) meth" where
  "s_chain [] this = ret this"
| "s_chain (c # cs) this = seq (s_invoke c this) (s_chain cs)"

subsection \<open>getJSON and fromJSON\<close>

















section \<open>Notions of the specification\<close>

text \<open>
  The argument and the fixed rank of a call; whether the call's category is one of the
  three that hold a single value, and whether that value is already set on an instance
  (a field holds the empty string until it is set); the field write of a call.
\<close>

fun arg :: "call \<Rightarrow> string" where
  "arg (Element v) = v"
| "arg (Id v) = v"
| "arg (Class v) = v"
| "arg (Attr v) = v"
| "arg (PseudoClass v) = v"
| "arg (PseudoElement v) = v"

fun rank :: "call \<Rightarrow> nat" where
  "rank (Element v) = 1"
| "rank (Id v) = 2"
| "rank (Class v) = 3"
| "rank (Attr v) = 4"
| "rank (PseudoClass v) = 5"
| "rank (PseudoElement v) = 6"

fun exclusive :: "call \<Rightarrow> bool" where
  "exclusive (Element v) = True"
| "exclusive (Id v) = True"
| "exclusive (PseudoElement v) = True"
| "exclusive (Class v) = False"
| "exclusive (Attr v) = False"
| "exclusive (PseudoClass v) = False"

fun occupied :: "call \<Rightarrow> 'arr BaseSelector \<Rightarrow> bool" where
  "occupied (Element v) this = (el_element this \<noteq> [])"
| "occupied (Id v) this = (el_id this \<noteq> [])"
| "occupied (PseudoElement v) this = (el_pseudoElement this \<noteq> [])"
| "occupied (Class v) this = False"
| "occupied (Attr v) this = False"
| "occupied (PseudoClass v) this = False"

fun put :: "call \<Rightarrow> string list BaseSelector \<Rightarrow> string list BaseSelector" where
  "put (Element v) this = this\<lparr>el_element := v\<rparr>"
| "put (Id v) this = this\<lparr>el_id := v\<rparr>"
| "put (Class v) this = this\<lparr>el_class := el_class this @ [v]\<rparr>"
| "put (Attr v) this = this\<lparr>el_attr := el_attr this @ [v]\<rparr>"
| "put (PseudoClass v) this = this\<lparr>el_pseudoClass := el_pseudoClass this @ [v]\<rparr>"
| "put (PseudoElement v) this = this\<lparr>el_pseudoElement := v\<rparr>"

text \<open>
  The calls that a facade call followed by a chain performs on the new instance: the
  constructor skips the mutator of an empty seed.
\<close>

definition executed :: "call \<Rightarrow> call list \<Rightarrow> call list" where
  "executed c cs = (if length (arg c) \<noteq> 0 then c # cs else cs)"

text \<open>The arguments of the calls of one rank, in call order, and the last of them.\<close>

definition args_of :: "nat \<Rightarrow> call list \<Rightarrow> string list" where
  "args_of r cs = map arg (filter (\<lambda>c. rank c = r) cs)"

definition last_arg :: "nat \<Rightarrow> call list \<Rightarrow> string" where
  "last_arg r cs = (case args_of r cs of [] \<Rightarrow> [] | v # vs \<Rightarrow> last (v # vs))"

text \<open>The highest rank among the calls, 0 when there is none.\<close>

fun highest_rank :: "call list \<Rightarrow> nat" where
  "highest_rank [] = 0"
| "highest_rank (c # cs) = max (rank c) (highest_rank cs)"

text \<open>
  The rendering of the stored fields, and the same rendering of the calls performed,
  where a single-valued part is the argument of the last call of its category: the
  element name bare, the id after \<^verbatim>\<open>#\<close>, every class after \<^verbatim>\<open>.\<close>, every
  attribute in brackets, every pseudo-class after \<^verbatim>\<open>:\<close>, the pseudo-element after
  \<^verbatim>\<open>::\<close>; an id or pseudo-element that is the empty string renders as nothing,
  mark included.
\<close>

definition render_fields :: "string list BaseSelector \<Rightarrow> string" where
  "render_fields this =
     el_element this
     @ (if el_id this = [] then [] else ''#'' @ el_id this)
     @ concat (map (\<lambda>v. ''.'' @ v) (el_class this))
     @ concat (map (\<lambda>v. ''['' @ v @ '']'') (el_attr this))
     @ concat (map (\<lambda>v. '':'' @ v) (el_pseudoClass this))
     @ (if el_pseudoElement this = [] then [] else ''::'' @ el_pseudoElement this)"

definition render_calls :: "call list \<Rightarrow> string" where
  "render_calls cs =
     last_arg 1 cs
     @ (if last_arg 2 cs = [] then [] else ''#'' @ last_arg 2 cs)
     @ concat (map (\<lambda>v. ''.'' @ v) (args_of 3 cs))
     @ concat (map (\<lambda>v. ''['' @ v @ '']'') (args_of 4 cs))
     @ concat (map (\<lambda>v. '':'' @ v) (args_of 5 cs))
     @ (if last_arg 6 cs = [] then [] else ''::'' @ last_arg 6 cs)"

text \<open>
  The rendering in the words of the specification, of a sequence of calls as they are
  written: every token after the mark of its category, the categories in the fixed
  order, the tokens of one category in call order.
\<close>

definition render_words :: "call list \<Rightarrow> string" where
  "render_words cs =
     concat (args_of 1 cs)
     @ concat (map (\<lambda>v. ''#'' @ v) (args_of 2 cs))
     @ concat (map (\<lambda>v. ''.'' @ v) (args_of 3 cs))
     @ concat (map (\<lambda>v. ''['' @ v @ '']'') (args_of 4 cs))
     @ concat (map (\<lambda>v. '':'' @ v) (args_of 5 cs))
     @ concat (map (\<lambda>v. ''::'' @ v) (args_of 6 cs))"

text \<open>
  What an instance of the store looks like from outside: its fields, the arrays read
  through their references.
\<close>

definition view :: "store \<Rightarrow> addr \<Rightarrow> string list BaseSelector" where
  "view h a =
     \<lparr>el_element = el_element (selectors h ! a),
      el_id = el_id (selectors h ! a),
      el_class = arrays h ! el_class (selectors h ! a),
      el_attr = arrays h ! el_attr (selectors h ! a),
      el_pseudoClass = arrays h ! el_pseudoClass (selectors h ! a),
      el_pseudoElement = el_pseudoElement (selectors h ! a),
      callOrder = callOrder (selectors h ! a)\<rparr>"

text \<open>
  The stores that the program can reach: every array reference of an instance is an
  allocated array, and no array is referenced twice, be it by two fields of one
  instance or by two instances.
\<close>

definition refs :: "addr BaseSelector \<Rightarrow> addr list" where
  "refs s = [el_class s, el_attr s, el_pseudoClass s]"

definition wf_store :: "store \<Rightarrow> bool" where
  "wf_store h \<longleftrightarrow>
     distinct (concat (map refs (selectors h))) \<and>
     list_all (\<lambda>r. r < length (arrays h)) (concat (map refs (selectors h)))"

text \<open>The store after the allocations of the constructor.\<close>

definition allocated :: "store \<Rightarrow> store" where
  "allocated h =
     \<lparr>selectors = selectors h @
        [\<lparr>el_element = [], el_id = [], el_class = length (arrays h),
          el_attr = Suc (length (arrays h)), el_pseudoClass = Suc (Suc (length (arrays h))),
          el_pseudoElement = [], callOrder = None\<rparr>],
      arrays = arrays h @ [[], [], []]\<rparr>"

text \<open>
  What a program does with the facade, one step after the other: a facade call, or a
  chain of calls on an instance it holds. A sequence of such steps is allowed from a
  store when every chain is called on an instance that is allocated by then.
\<close>

datatype action = Facade call | Chain addr "call list"

fun act :: "action \<Rightarrow> store \<Rightarrow> store" where
  "act (Facade c) h = snd (s_facade c h)"
| "act (Chain a cs) h = snd (s_chain cs a h)"

fun allowed :: "action list \<Rightarrow> store \<Rightarrow> bool" where
  "allowed [] h = True"
| "allowed (Facade c # as) h = allowed as (act (Facade c) h)"
| "allowed (Chain a cs # as) h =
     (a < length (selectors h) \<and> allowed as (act (Chain a cs) h))"




section \<open>Properties of one instance\<close>

subsection \<open>What a call does\<close>

lemmas meth_defs = ret_def throw_def modify_def seq_def throwOrder_def throwUnique_def

lemma checkOrder_eq:
  "checkOrder order this =
     (if js_gt (callOrder this) order then (Inl OrderError, this)
      else (Inr (), this\<lparr>callOrder := Some order\<rparr>))"
  by (simp add: checkOrder_def meth_defs)

text \<open>
  Every mutator first tests its uniqueness guard (if it has one), then the order, and
  writes only when both tests pass.
\<close>

lemma invoke_eq:
  "invoke c this =
     (if occupied c this then (Inl UniquenessError, this)
      else if js_gt (callOrder this) (rank c) then (Inl OrderError, this)
      else (Inr (), put c (this\<lparr>callOrder := Some (rank c)\<rparr>)))"
  by (cases c)
    (simp_all add: element_def id_sel_def class_sel_def attr_def pseudoClass_def
      pseudoElement_def checkOrder_eq meth_defs)

lemma chain_Cons_ok:
  "chain (c # cs) this = (Inr (), this') \<longleftrightarrow>
     \<not> occupied c this \<and> \<not> js_gt (callOrder this) (rank c) \<and>
     chain cs (put c (this\<lparr>callOrder := Some (rank c)\<rparr>)) = (Inr (), this')"
  by (simp add: seq_def invoke_eq)

lemma args_of_Nil: "args_of r [] = []"
  by (simp add: args_of_def)

lemma args_of_Cons:
  "args_of r (c # cs) = (if rank c = r then arg c # args_of r cs else args_of r cs)"
  by (simp add: args_of_def)

subsection \<open>Printing\<close>

lemma join_sep: "xs \<noteq> [] \<Longrightarrow> sep @ join sep xs = concat (map (\<lambda>x. sep @ x) xs)"
  by (induction sep xs rule: join.induct) simp_all

lemma join_empty: "join [] xs = concat xs"
  by (induction "[] :: string" xs rule: join.induct) simp_all

lemma printClass_eq:
  "printClass this = (Inr (concat (map (\<lambda>v. ''.'' @ v) (el_class this))), this)"
  using join_sep [of "el_class this" "''.''"] by (simp add: printClass_def ret_def)

lemma printAttr_eq:
  "printAttr this = (Inr (concat (map (\<lambda>v. ''['' @ v @ '']'') (el_attr this))), this)"
  by (simp add: printAttr_def ret_def join_empty)

lemma printPseudoClass_eq:
  "printPseudoClass this =
     (Inr (concat (map (\<lambda>v. '':'' @ v) (el_pseudoClass this))), this)"
  using join_sep [of "el_pseudoClass this" "'':''"]
  by (simp add: printPseudoClass_def ret_def)

lemma stringify_eq: "stringify this = (Inr (render_fields this), this)"
  by (simp add: stringify_def seq_def ret_def printElement_def printId_def printClass_eq
      printAttr_eq printPseudoClass_eq printPseudoElement_def render_fields_def)

subsection \<open>Chains and the facade\<close>

lemma chain_arrays:
  "chain cs this = (Inr (), this') \<Longrightarrow>
     el_class this' = el_class this @ args_of 3 cs \<and>
     el_attr this' = el_attr this @ args_of 4 cs \<and>
     el_pseudoClass this' = el_pseudoClass this @ args_of 5 cs"
proof (induction cs arbitrary: this)
  case Nil
  then show ?case by (simp add: ret_def args_of_Nil)
next
  case (Cons c cs)
  from Cons.prems
  have "chain cs (put c (this\<lparr>callOrder := Some (rank c)\<rparr>)) = (Inr (), this')"
    by (simp only: chain_Cons_ok)
  from Cons.IH [OF this] show ?case
    by (cases c) (simp_all add: args_of_Cons)
qed

lemma chain_slots:
  "chain cs this = (Inr (), this') \<Longrightarrow>
     el_element this' = (if args_of 1 cs = [] then el_element this else last (args_of 1 cs)) \<and>
     el_id this' = (if args_of 2 cs = [] then el_id this else last (args_of 2 cs)) \<and>
     el_pseudoElement this' =
       (if args_of 6 cs = [] then el_pseudoElement this else last (args_of 6 cs))"
proof (induction cs arbitrary: this)
  case Nil
  then show ?case by (simp add: ret_def args_of_Nil)
next
  case (Cons c cs)
  from Cons.prems
  have "chain cs (put c (this\<lparr>callOrder := Some (rank c)\<rparr>)) = (Inr (), this')"
    by (simp only: chain_Cons_ok)
  from Cons.IH [OF this] show ?case
    by (cases c) (simp_all add: args_of_Cons)
qed

lemma chain_marks:
  "chain cs this = (Inr (), this') \<Longrightarrow>
     \<forall>x\<in>set cs. rank x = 2 \<or> rank x = 6 \<longrightarrow> arg x \<noteq> [] \<Longrightarrow>
     el_element this' = el_element this @ concat (args_of 1 cs) \<and>
     (if el_id this' = [] then [] else ''#'' @ el_id this') =
       (if el_id this = [] then [] else ''#'' @ el_id this)
       @ concat (map (\<lambda>v. ''#'' @ v) (args_of 2 cs)) \<and>
     (if el_pseudoElement this' = [] then [] else ''::'' @ el_pseudoElement this') =
       (if el_pseudoElement this = [] then [] else ''::'' @ el_pseudoElement this)
       @ concat (map (\<lambda>v. ''::'' @ v) (args_of 6 cs))"
proof (induction cs arbitrary: this)
  case Nil
  then show ?case by (simp add: ret_def args_of_Nil)
next
  case (Cons c cs)
  from Cons.prems(1)
  have free: "\<not> occupied c this"
    and rest: "chain cs (put c (this\<lparr>callOrder := Some (rank c)\<rparr>)) = (Inr (), this')"
    unfolding chain_Cons_ok by blast+
  from Cons.prems(2)
  have tl: "\<forall>x\<in>set cs. rank x = 2 \<or> rank x = 6 \<longrightarrow> arg x \<noteq> []"
    and hd: "rank c = 2 \<or> rank c = 6 \<longrightarrow> arg c \<noteq> []" by simp_all
  from Cons.IH [OF rest tl] free hd show ?case
    by (cases c) (simp_all add: args_of_Cons)
qed

lemma constructor_eq:
  "constructor (defaults\<lparr>opt_element := v\<rparr>) =
     if_stmt (length v \<noteq> 0) (element v) fields_init"
  "constructor (defaults\<lparr>opt_id := v\<rparr>) =
     if_stmt (length v \<noteq> 0) (id_sel v) fields_init"
  "constructor (defaults\<lparr>opt_className := v\<rparr>) =
     if_stmt (length v \<noteq> 0) (class_sel v) fields_init"
  "constructor (defaults\<lparr>opt_attr := v\<rparr>) =
     if_stmt (length v \<noteq> 0) (attr v) fields_init"
  "constructor (defaults\<lparr>opt_pseudoClass := v\<rparr>) =
     if_stmt (length v \<noteq> 0) (pseudoClass v) fields_init"
  "constructor (defaults\<lparr>opt_pseudoElement := v\<rparr>) =
     if_stmt (length v \<noteq> 0) (pseudoElement v) fields_init"
  by (simp_all add: constructor_def defaults_def if_stmt_def seq_def ret_def
      split: prod.splits sum.splits)

lemma facade_eq:
  "facade c =
     (case if_stmt (length (arg c) \<noteq> 0) (invoke c) fields_init of
        (Inl e, _) \<Rightarrow> Inl e | (Inr _, this) \<Rightarrow> Inr this)"
  by (cases c)
    (simp_all add: builder_element_def builder_id_def builder_class_def builder_attr_def
      builder_pseudoClass_def builder_pseudoElement_def new_BaseSelector_def constructor_eq)

lemma fields_init_free:
  "\<not> occupied c fields_init" "\<not> js_gt (callOrder fields_init) r"
  by (cases c) (simp_all add: fields_init_def js_gt_def)

lemma facade_ok:
  "facade c =
     Inr (if length (arg c) \<noteq> 0 then put c (fields_init\<lparr>callOrder := Some (rank c)\<rparr>)
          else fields_init)"
  by (simp add: facade_eq if_stmt_def invoke_eq ret_def fields_init_free)

lemma build_eq:
  "build c cs =
     (case chain (executed c cs) fields_init of
        (Inl e, _) \<Rightarrow> Inl e | (Inr _, this) \<Rightarrow> Inr this)"
  by (simp add: build_def facade_ok executed_def seq_def invoke_eq fields_init_free)

lemma build_chain:
  "build c cs = Inr this \<longleftrightarrow> chain (executed c cs) fields_init = (Inr (), this)"
  by (simp add: build_eq split: prod.splits sum.splits)

subsection \<open>The rank counter and the single-valued parts\<close>

lemma chain_counter:
  "chain cs this = (Inr (), this') \<Longrightarrow>
     js_gt (callOrder this') r \<longleftrightarrow> r < highest_rank cs \<or> js_gt (callOrder this) r"
proof (induction cs arbitrary: this)
  case Nil
  then show ?case by (simp add: ret_def)
next
  case (Cons c cs)
  from Cons.prems
  have ok: "\<not> js_gt (callOrder this) (rank c)"
    and rest: "chain cs (put c (this\<lparr>callOrder := Some (rank c)\<rparr>)) = (Inr (), this')"
    unfolding chain_Cons_ok by blast+
  have "callOrder (put c (this\<lparr>callOrder := Some (rank c)\<rparr>)) = Some (rank c)"
    by (cases c) simp_all
  with Cons.IH [OF rest] ok show ?case
    by (auto simp: js_gt_def split: option.splits)
qed

lemma build_counter:
  "build c0 cs = Inr this \<Longrightarrow>
     js_gt (callOrder this) r \<longleftrightarrow> r < highest_rank (executed c0 cs)"
  using chain_counter [of "executed c0 cs" fields_init this r]
  by (simp add: build_chain fields_init_free)

lemma occupied_same_rank: "rank c = rank c1 \<Longrightarrow> occupied c this = occupied c1 this"
  by (cases c; cases c1) simp_all

lemma occupied_put:
  "exclusive c \<Longrightarrow> arg c \<noteq> [] \<Longrightarrow> occupied c (put c (this\<lparr>callOrder := k\<rparr>))"
  by (cases c) simp_all

lemma occupied_step:
  "occupied c1 this \<Longrightarrow> \<not> occupied c this \<Longrightarrow>
     occupied c1 (put c (this\<lparr>callOrder := k\<rparr>))"
  by (cases c; cases c1) simp_all

lemma occupied_chain:
  "chain cs this = (Inr (), this') \<Longrightarrow> occupied c1 this \<Longrightarrow> occupied c1 this'"
proof (induction cs arbitrary: this)
  case Nil
  then show ?case by (simp add: ret_def)
next
  case (Cons c cs)
  from Cons.prems(1)
  have free: "\<not> occupied c this"
    and rest: "chain cs (put c (this\<lparr>callOrder := Some (rank c)\<rparr>)) = (Inr (), this')"
    unfolding chain_Cons_ok by blast+
  from Cons.IH [OF rest] occupied_step [OF Cons.prems(2) free] show ?case .
qed

lemma chain_sets:
  "chain cs this = (Inr (), this') \<Longrightarrow> c1 \<in> set cs \<Longrightarrow> exclusive c1 \<Longrightarrow> arg c1 \<noteq> [] \<Longrightarrow>
     occupied c1 this'"
proof (induction cs arbitrary: this)
  case Nil
  then show ?case by simp
next
  case (Cons c cs)
  from Cons.prems(1)
  have rest: "chain cs (put c (this\<lparr>callOrder := Some (rank c)\<rparr>)) = (Inr (), this')"
    by (simp only: chain_Cons_ok)
  show ?case
  proof (cases "c1 = c")
    case True
    with Cons.prems have "occupied c1 (put c (this\<lparr>callOrder := Some (rank c)\<rparr>))"
      by (simp add: occupied_put)
    with rest show ?thesis by (rule occupied_chain)
  next
    case False
    with Cons.prems(2) have "c1 \<in> set cs" by simp
    from Cons.IH [OF rest this Cons.prems(3,4)] show ?thesis .
  qed
qed

section \<open>Properties of the store\<close>

lemma wf_empty_store: "wf_store empty_store"
  by (simp add: wf_store_def empty_store_def)

lemma wf_in_range:
  "wf_store h \<Longrightarrow> a < length (selectors h) \<Longrightarrow> r \<in> set (refs (selectors h ! a)) \<Longrightarrow>
     r < length (arrays h)"
  by (auto simp: wf_store_def list_all_iff)

lemma wf_distinct: "wf_store h \<Longrightarrow> a < length (selectors h) \<Longrightarrow> distinct (refs (selectors h ! a))"
  by (auto simp: wf_store_def distinct_concat_iff)

lemma distinct_concat_nth:
  "distinct (concat xss) \<Longrightarrow> i < length xss \<Longrightarrow> j < length xss \<Longrightarrow> i \<noteq> j \<Longrightarrow>
     set (xss ! i) \<inter> set (xss ! j) = {}"
proof (induction xss arbitrary: i j)
  case Nil
  then show ?case by simp
next
  case (Cons xs xss)
  show ?case
  proof (cases i)
    case 0
    with Cons.prems obtain j' where "j = Suc j'" "j' < length xss"
      by (cases j) auto
    then have "xss ! j' \<in> set xss" by simp
    with 0 \<open>j = Suc j'\<close> Cons.prems(1) show ?thesis by auto
  next
    case (Suc i')
    show ?thesis
    proof (cases j)
      case 0
      from Suc Cons.prems have "xss ! i' \<in> set xss" by simp
      with 0 Suc Cons.prems(1) show ?thesis by auto
    next
      case (Suc j')
      with \<open>i = Suc i'\<close> Cons.prems Cons.IH [of i' j'] show ?thesis by auto
    qed
  qed
qed

lemma wf_disjoint:
  "wf_store h \<Longrightarrow> a < length (selectors h) \<Longrightarrow> b < length (selectors h) \<Longrightarrow> a \<noteq> b \<Longrightarrow>
     set (refs (selectors h ! a)) \<inter> set (refs (selectors h ! b)) = {}"
  using distinct_concat_nth [of "map refs (selectors h)" a b] by (simp add: wf_store_def)


lemma refs_update:
  "refs s = refs (xs ! a) \<Longrightarrow> map refs (xs[a := s]) = map refs xs"
  by (induction xs arbitrary: a) (auto split: nat.splits)

lemma wf_fields:
  assumes "wf_store h" "a < length (selectors h)"
  shows "el_class (selectors h ! a) < length (arrays h)"
    and "el_attr (selectors h ! a) < length (arrays h)"
    and "el_pseudoClass (selectors h ! a) < length (arrays h)"
    and "el_class (selectors h ! a) \<noteq> el_attr (selectors h ! a)"
    and "el_class (selectors h ! a) \<noteq> el_pseudoClass (selectors h ! a)"
    and "el_attr (selectors h ! a) \<noteq> el_pseudoClass (selectors h ! a)"
  using wf_in_range [OF assms] wf_distinct [OF assms] by (auto simp: refs_def)

lemma wf_others:
  assumes "wf_store h" "a < length (selectors h)" "b < length (selectors h)" "b \<noteq> a"
  shows "el_class (selectors h ! b) \<notin> set (refs (selectors h ! a))"
    and "el_attr (selectors h ! b) \<notin> set (refs (selectors h ! a))"
    and "el_pseudoClass (selectors h ! b) \<notin> set (refs (selectors h ! a))"
  using wf_disjoint [OF assms(1,2,3)] assms(4) by (auto simp: refs_def)

lemmas store_defs = s_element_def s_id_def s_class_def s_attr_def s_pseudoClass_def
  s_pseudoElement_def on_instance_def get_field_def push_def

lemma s_invoke_result:
  "fst (s_invoke c a h) = map_sum id (\<lambda>_. a) (fst (invoke c (view h a)))"
  by (cases c)
    (simp_all add: store_defs element_def id_sel_def class_sel_def attr_def pseudoClass_def
      pseudoElement_def checkOrder_eq meth_defs view_def)

lemma s_invoke_length:
  "length (selectors (snd (s_invoke c a h))) = length (selectors h)"
  "length (arrays (snd (s_invoke c a h))) = length (arrays h)"
  by (cases c;
    simp add: store_defs element_def id_sel_def 
      pseudoElement_def checkOrder_eq meth_defs)+


lemma s_invoke_this:
  assumes "wf_store h" "a < length (selectors h)"
  shows "view (snd (s_invoke c a h)) a = snd (invoke c (view h a))"
  using wf_fields [OF assms] assms(2)
  by (cases c)
    (simp_all add: store_defs element_def id_sel_def class_sel_def attr_def pseudoClass_def
      pseudoElement_def checkOrder_eq meth_defs view_def)

lemma s_invoke_frame:
  assumes "wf_store h" "a < length (selectors h)" "b < length (selectors h)" "b \<noteq> a"
  shows "view (snd (s_invoke c a h)) b = view h b"
proof -
  from wf_others [OF assms]
  have "el_class (selectors h ! b) \<noteq> el_class (selectors h ! a)"
    "el_attr (selectors h ! b) \<noteq> el_class (selectors h ! a)"
    "el_pseudoClass (selectors h ! b) \<noteq> el_class (selectors h ! a)"
    "el_class (selectors h ! b) \<noteq> el_attr (selectors h ! a)"
    "el_attr (selectors h ! b) \<noteq> el_attr (selectors h ! a)"
    "el_pseudoClass (selectors h ! b) \<noteq> el_attr (selectors h ! a)"
    "el_class (selectors h ! b) \<noteq> el_pseudoClass (selectors h ! a)"
    "el_attr (selectors h ! b) \<noteq> el_pseudoClass (selectors h ! a)"
    "el_pseudoClass (selectors h ! b) \<noteq> el_pseudoClass (selectors h ! a)"
    by (simp_all add: refs_def)
  with assms(2,4) show ?thesis
    by (cases c)
      (simp_all add: store_defs element_def id_sel_def pseudoElement_def checkOrder_eq
        meth_defs view_def)
qed

lemma s_invoke_wf:
  assumes "wf_store h"
  shows "wf_store (snd (s_invoke c a h))"
  using assms
  by (cases c)
    (simp_all add: store_defs element_def id_sel_def class_sel_def attr_def pseudoClass_def
      pseudoElement_def checkOrder_eq meth_defs wf_store_def refs_update refs_def)


lemma s_chain_sim:
  assumes "wf_store h" "a < length (selectors h)"
  shows "fst (s_chain cs a h) = map_sum id (\<lambda>_. a) (fst (chain cs (view h a)))
    \<and> view (snd (s_chain cs a h)) a = snd (chain cs (view h a))
    \<and> (\<forall>b. b < length (selectors h) \<longrightarrow> b \<noteq> a \<longrightarrow> view (snd (s_chain cs a h)) b = view h b)
    \<and> wf_store (snd (s_chain cs a h))
    \<and> length (selectors (snd (s_chain cs a h))) = length (selectors h)"
  using assms
proof (induction cs arbitrary: h)
  case Nil
  then show ?case by (simp add: ret_def)
next
  case (Cons c cs)
  obtain r h1 where s: "s_invoke c a h = (r, h1)" by (cases "s_invoke c a h")
  obtain u t1 where v: "invoke c (view h a) = (u, t1)" by (cases "invoke c (view h a)")
  from s v s_invoke_result [of c a h] s_invoke_this [OF Cons.prems, of c]
    s_invoke_wf [OF Cons.prems(1), of c a] s_invoke_length(1) [of c a h]
  have r: "r = map_sum id (\<lambda>_. a) u" and t1: "view h1 a = t1" and wf1: "wf_store h1"
    and len: "length (selectors h1) = length (selectors h)"
    by simp_all
  have frame: "view h1 b = view h b" if "b < length (selectors h)" "b \<noteq> a" for b
    using s_invoke_frame [OF Cons.prems that, of c] s by simp
  show ?case
  proof (cases u)
    case (Inl e)
    with s v r t1 wf1 len frame show ?thesis
      by (simp add: seq_def)
  next
    case (Inr w)
    from Cons.prems(2) len have "a < length (selectors h1)" by simp
    from Cons.IH [OF wf1 this] Inr s v r t1 len frame show ?thesis
      by (simp add: seq_def)
  qed
qed


lemma if_stmt_False: "if_stmt False m = ret ()"
  by (simp add: if_stmt_def)

lemma seq_ret: "seq (ret x) f = f x"
  by (rule ext) (simp add: seq_def ret_def)

lemma alloc_eq:
  "seq new_array (\<lambda>c. seq new_array (\<lambda>a. seq new_array (\<lambda>p.
     seq (new_instance \<lparr>el_element = [], el_id = [], el_class = c, el_attr = a,
            el_pseudoClass = p, el_pseudoElement = [], callOrder = None\<rparr>) f))) h
   = f (length (selectors h)) (allocated h)"
  by (cases h) (simp add: seq_def ret_def new_array_def new_instance_def allocated_def)

lemma s_new_BaseSelector_eq:
  "s_new_BaseSelector (defaults\<lparr>opt_element := v\<rparr>) h =
     seq (if_stmt (length v \<noteq> 0) (discard (s_element v (length (selectors h)))))
       (\<lambda>_. ret (length (selectors h))) (allocated h)"
  "s_new_BaseSelector (defaults\<lparr>opt_id := v\<rparr>) h =
     seq (if_stmt (length v \<noteq> 0) (discard (s_id v (length (selectors h)))))
       (\<lambda>_. ret (length (selectors h))) (allocated h)"
  "s_new_BaseSelector (defaults\<lparr>opt_className := v\<rparr>) h =
     seq (if_stmt (length v \<noteq> 0) (discard (s_class v (length (selectors h)))))
       (\<lambda>_. ret (length (selectors h))) (allocated h)"
  "s_new_BaseSelector (defaults\<lparr>opt_attr := v\<rparr>) h =
     seq (if_stmt (length v \<noteq> 0) (discard (s_attr v (length (selectors h)))))
       (\<lambda>_. ret (length (selectors h))) (allocated h)"
  "s_new_BaseSelector (defaults\<lparr>opt_pseudoClass := v\<rparr>) h =
     seq (if_stmt (length v \<noteq> 0) (discard (s_pseudoClass v (length (selectors h)))))
       (\<lambda>_. ret (length (selectors h))) (allocated h)"
  "s_new_BaseSelector (defaults\<lparr>opt_pseudoElement := v\<rparr>) h =
     seq (if_stmt (length v \<noteq> 0) (discard (s_pseudoElement v (length (selectors h)))))
       (\<lambda>_. ret (length (selectors h))) (allocated h)"
  by (simp_all add: s_new_BaseSelector_def defaults_def alloc_eq if_stmt_False seq_ret)

lemma s_facade_eq:
  "s_facade c h =
     seq (if_stmt (length (arg c) \<noteq> 0) (discard (s_invoke c (length (selectors h)))))
       (\<lambda>_. ret (length (selectors h))) (allocated h)"
  by (cases c) (simp_all add: s_new_BaseSelector_eq)

lemma allocated_wf: "wf_store h \<Longrightarrow> wf_store (allocated h)"
  by (auto simp: wf_store_def allocated_def refs_def list_all_iff)

lemma allocated_new: "view (allocated h) (length (selectors h)) = fields_init"
  by (simp add: view_def allocated_def fields_init_def nth_append)

lemma allocated_old:
  assumes "wf_store h" "b < length (selectors h)"
  shows "view (allocated h) b = view h b"
  using wf_fields [OF assms] assms(2)
  by (simp add: view_def allocated_def nth_append)

lemma allocated_length: "length (selectors (allocated h)) = Suc (length (selectors h))"
  by (simp add: allocated_def)

lemma s_facade_sim:
  assumes "wf_store h"
  shows "fst (s_facade c h) = Inr (length (selectors h))
    \<and> facade c = Inr (view (snd (s_facade c h)) (length (selectors h)))
    \<and> (\<forall>b. b < length (selectors h) \<longrightarrow> view (snd (s_facade c h)) b = view h b)
    \<and> wf_store (snd (s_facade c h))
    \<and> length (selectors (snd (s_facade c h))) = Suc (length (selectors h))"
proof (cases "length (arg c) \<noteq> 0")
  case False
  with assms show ?thesis
    by (simp add: s_facade_eq if_stmt_def seq_def ret_def facade_ok allocated_wf
        allocated_new allocated_old allocated_length)
next
  case True
  let ?m = "length (selectors h)"
  let ?h0 = "allocated h"
  have wf0: "wf_store ?h0" and m: "?m < length (selectors ?h0)"
    using assms by (simp_all add: allocated_wf allocated_length)
  obtain r h1 where s: "s_invoke c ?m ?h0 = (r, h1)" by (cases "s_invoke c ?m ?h0")
  have ok: "invoke c fields_init = (Inr (), put c (fields_init\<lparr>callOrder := Some (rank c)\<rparr>))"
    by (simp add: invoke_eq fields_init_free)
  from s ok s_invoke_result [of c ?m ?h0] s_invoke_this [OF wf0 m, of c]
    s_invoke_wf [OF wf0, of c ?m] s_invoke_length(1) [of c ?m ?h0]
  have r: "r = Inr ?m" and t1: "view h1 ?m = put c (fields_init\<lparr>callOrder := Some (rank c)\<rparr>)"
    and wf1: "wf_store h1" and len: "length (selectors h1) = Suc ?m"
    by (simp_all add: allocated_new allocated_length)
  have frame: "view h1 b = view h b" if "b < ?m" for b
  proof -
    from that have "b < length (selectors ?h0)" "b \<noteq> ?m" by (simp_all add: allocated_length)
    from s_invoke_frame [OF wf0 m this, of c] s allocated_old [OF assms that]
    show ?thesis by simp
  qed
  from True s r t1 wf1 len frame show ?thesis
    by (simp add: s_facade_eq if_stmt_def discard_def seq_def ret_def facade_ok)
qed


lemma act_frame:
  assumes "wf_store h" "allowed (x # as) h" "b < length (selectors h)"
    "\<forall>a cs. x = Chain a cs \<longrightarrow> a \<noteq> b"
  shows "view (act x h) b = view h b \<and> wf_store (act x h)
    \<and> length (selectors h) \<le> length (selectors (act x h))"
proof (cases x)
  case (Facade c)
  with s_facade_sim [OF assms(1), of c] assms(3) show ?thesis by simp
next
  case (Chain a cs)
  with assms(2) have a: "a < length (selectors h)" by simp
  from Chain assms(4) have "b \<noteq> a" by simp
  with s_chain_sim [OF assms(1) a, of cs] assms(3) Chain show ?thesis by simp
qed

lemma acts_frame:
  "wf_store h \<Longrightarrow> allowed as h \<Longrightarrow> b < length (selectors h) \<Longrightarrow>
     \<forall>a cs. Chain a cs \<in> set as \<longrightarrow> a \<noteq> b \<Longrightarrow>
     view (fold act as h) b = view h b \<and> wf_store (fold act as h)
     \<and> length (selectors h) \<le> length (selectors (fold act as h))"
proof (induction as arbitrary: h)
  case Nil
  then show ?case by simp
next
  case (Cons x as)
  from Cons.prems(4) have hd: "\<forall>a cs. x = Chain a cs \<longrightarrow> a \<noteq> b"
    and tl: "\<forall>a cs. Chain a cs \<in> set as \<longrightarrow> a \<noteq> b" by auto
  from act_frame [OF Cons.prems(1,2,3) hd]
  have 1: "view (act x h) b = view h b" "wf_store (act x h)"
    "length (selectors h) \<le> length (selectors (act x h))" by simp_all
  from Cons.prems(2) have 2: "allowed as (act x h)" by (cases x) simp_all
  from 1(3) Cons.prems(3) have 3: "b < length (selectors (act x h))" by simp
  from Cons.IH [OF 1(2) 2 3 tl] 1 show ?case by simp
qed

lemma acts_wf:
  "wf_store h \<Longrightarrow> allowed as h \<Longrightarrow>
     wf_store (fold act as h) \<and> length (selectors h) \<le> length (selectors (fold act as h))"
proof (induction as arbitrary: h)
  case Nil
  then show ?case by simp
next
  case (Cons x as)
  have 1: "wf_store (act x h) \<and> length (selectors h) \<le> length (selectors (act x h))"
  proof (cases x)
    case (Facade c)
    with s_facade_sim [OF Cons.prems(1), of c] show ?thesis by simp
  next
    case (Chain a cs)
    with Cons.prems(2) have "a < length (selectors h)" by simp
    with s_chain_sim [OF Cons.prems(1) this, of cs] Chain show ?thesis by simp
  qed
  from Cons.prems(2) have 2: "allowed as (act x h)" by (cases x) simp_all
  from Cons.IH [of "act x h"] 1 2 show ?case by simp
qed

section \<open>Properties of the JSON helpers\<close>


section \<open>The claims\<close>

text \<open>
  C1, as amended. For every selector that a facade call followed by a chain of calls
  builds without a throw, in which the facade token and every id and pseudo-element
  token is a non-empty string, \<^verbatim>\<open>stringify\<close> returns the tokens in the fixed
  order element, id, classes, attributes, pseudo-classes, pseudo-element, whatever
  the order of the calls: the element name bare, the id after \<^verbatim>\<open>#\<close>, every class
  after \<^verbatim>\<open>.\<close>, every attribute in \<^verbatim>\<open>[...]\<close>, every pseudo-class after
  \<^verbatim>\<open>:\<close>, the pseudo-element after \<^verbatim>\<open>::\<close>, the classes, attributes and
  pseudo-classes in the order of their calls (second conjunct). Without the condition
  on the tokens the result is the same rendering of the calls performed, except that
  an id or pseudo-element that is the empty string renders as nothing and that an
  empty facade token adds no part (first conjunct). The witness is the example of
  the claim.
\<close>

theorem stringify_fixed_order:
  assumes "build c cs = Inr this"
  shows "fst (stringify this) = Inr (render_calls (executed c cs))
    \<and> (arg c \<noteq> [] \<longrightarrow> (\<forall>x\<in>set cs. rank x = 2 \<or> rank x = 6 \<longrightarrow> arg x \<noteq> []) \<longrightarrow>
         fst (stringify this) = Inr (render_words (c # cs)))"
proof (intro conjI impI)
  from assms have ch: "chain (executed c cs) fields_init = (Inr (), this)"
    by (simp add: build_chain)
  have "render_fields this = render_calls (executed c cs)"
    using chain_arrays [OF ch] chain_slots [OF ch]
    by (simp add: render_fields_def render_calls_def last_arg_def fields_init_def
        split: list.splits)
  then show "fst (stringify this) = Inr (render_calls (executed c cs))"
    by (simp add: stringify_eq)
next
  assume ne: "arg c \<noteq> []"
    and ex: "\<forall>x\<in>set cs. rank x = 2 \<or> rank x = 6 \<longrightarrow> arg x \<noteq> []"
  from assms ne have ch: "chain (c # cs) fields_init = (Inr (), this)"
    by (simp add: build_chain executed_def)
  from ne ex have all: "\<forall>x\<in>set (c # cs). rank x = 2 \<or> rank x = 6 \<longrightarrow> arg x \<noteq> []"
    by simp
  have "render_fields this = render_words (c # cs)"
    using chain_arrays [OF ch] chain_marks [OF ch all]
    by (simp add: render_fields_def render_words_def fields_init_def)
  then show "fst (stringify this) = Inr (render_words (c # cs))"
    by (simp add: stringify_eq)
qed

theorem stringify_fixed_order_witness:
  "build (Element ''a'')
     [Id ''x'', Class ''b1'', Class ''b2'', Attr ''href$=\".png\"'', PseudoClass ''focus'']
   = Inr \<lparr>el_element = ''a'', el_id = ''x'', el_class = [''b1'', ''b2''],
       el_attr = [''href$=\".png\"''], el_pseudoClass = [''focus''],
       el_pseudoElement = '''', callOrder = Some 5\<rparr>
   \<and> fst (stringify \<lparr>el_element = ''a'', el_id = ''x'', el_class = [''b1'', ''b2''],
       el_attr = [''href$=\".png\"''], el_pseudoClass = [''focus''],
       el_pseudoElement = '''', callOrder = Some 5\<rparr>)
     = Inr ''a#x.b1.b2[href$=\".png\"]:focus''"
proof -
  have b: "build (Element ''a'')
     [Id ''x'', Class ''b1'', Class ''b2'', Attr ''href$=\".png\"'', PseudoClass ''focus'']
   = Inr \<lparr>el_element = ''a'', el_id = ''x'', el_class = [''b1'', ''b2''],
       el_attr = [''href$=\".png\"''], el_pseudoClass = [''focus''],
       el_pseudoElement = '''', callOrder = Some 5\<rparr>"
    by code_simp
  have r: "render_words (Element ''a'' #
     [Id ''x'', Class ''b1'', Class ''b2'', Attr ''href$=\".png\"'', PseudoClass ''focus''])
   = ''a#x.b1.b2[href$=\".png\"]:focus''"
    by code_simp
  have ne: "arg (Element ''a'') \<noteq> []"
    "\<forall>x\<in>set [Id ''x'', Class ''b1'', Class ''b2'', Attr ''href$=\".png\"'',
        PseudoClass ''focus'']. rank x = 2 \<or> rank x = 6 \<longrightarrow> arg x \<noteq> []"
    by simp_all
  from stringify_fixed_order [OF b] ne
  have "fst (stringify \<lparr>el_element = ''a'', el_id = ''x'', el_class = [''b1'', ''b2''],
       el_attr = [''href$=\".png\"''], el_pseudoClass = [''focus''],
       el_pseudoElement = '''', callOrder = Some 5\<rparr>)
     = Inr (render_words (Element ''a'' #
     [Id ''x'', Class ''b1'', Class ''b2'', Attr ''href$=\".png\"'', PseudoClass ''focus'']))"
    by blast
  with b show ?thesis
    by (simp only: r simp_thms)
qed

text \<open>
  The claim as stated fails on empty tokens. After \<^verbatim>\<open>element('a').id('')\<close> the
  claim's rendering is \<^verbatim>\<open>a#\<close>, the id after its mark, and \<^verbatim>\<open>stringify\<close> returns
  \<^verbatim>\<open>a\<close>: \<^verbatim>\<open>printId\<close> tests the length of the id. After
  \<^verbatim>\<open>cssSelectorBuilder.class('').class('k')\<close> the claim's rendering has two classes,
  \<^verbatim>\<open>..k\<close>, and \<^verbatim>\<open>stringify\<close> returns \<^verbatim>\<open>.k\<close>: the constructor skips an empty
  seed.
\<close>

theorem stringify_fixed_order_counterexample:
  "build (Element ''a'') [Id []]
     = Inr \<lparr>el_element = ''a'', el_id = [], el_class = [], el_attr = [],
         el_pseudoClass = [], el_pseudoElement = [], callOrder = Some 2\<rparr>
   \<and> fst (stringify \<lparr>el_element = ''a'', el_id = [], el_class = [], el_attr = [],
         el_pseudoClass = [], el_pseudoElement = [], callOrder = Some 2\<rparr>) = Inr ''a''
   \<and> render_words [Element ''a'', Id []] = ''a#''
   \<and> build (Class []) [Class ''k'']
     = Inr \<lparr>el_element = [], el_id = [], el_class = [''k''], el_attr = [],
         el_pseudoClass = [], el_pseudoElement = [], callOrder = Some 3\<rparr>
   \<and> fst (stringify \<lparr>el_element = [], el_id = [], el_class = [''k''], el_attr = [],
         el_pseudoClass = [], el_pseudoElement = [], callOrder = Some 3\<rparr>) = Inr ''.k''
   \<and> render_words [Class [], Class ''k''] = ''..k''"
proof -
  have "build (Element ''a'') [Id []]
     = Inr \<lparr>el_element = ''a'', el_id = [], el_class = [], el_attr = [],
         el_pseudoClass = [], el_pseudoElement = [], callOrder = Some 2\<rparr>"
    "build (Class []) [Class ''k'']
     = Inr \<lparr>el_element = [], el_id = [], el_class = [''k''], el_attr = [],
         el_pseudoClass = [], el_pseudoElement = [], callOrder = Some 3\<rparr>"
    "render_words [Element ''a'', Id []] = ''a#''"
    "render_words [Class [], Class ''k''] = ''..k''"
    by code_simp+
  then show ?thesis
    by (simp add: stringify_eq render_fields_def)
qed

text \<open>
  C2, as amended. A category-adding call throws the order error if and only if no
  uniqueness violation applies to it (its category is not a single-valued one that is
  already set) and its rank is strictly less than the rank counter; when neither
  violation applies, the counter is set to the rank of the call and the field is
  written, so that a call of equal rank passes the order check. On a selector built by
  a facade call and a chain, the counter exceeds a rank exactly when the rank is below
  the highest rank among the calls performed. The witness is the example of the claim:
  \<^verbatim>\<open>id('x')\<close> then \<^verbatim>\<open>element('y')\<close> throws the order error, while \<^verbatim>\<open>class('b')\<close>
  proceeds.
\<close>

theorem order_error_iff:
  "(fst (invoke c this) = Inl OrderError \<longleftrightarrow>
      \<not> occupied c this \<and> js_gt (callOrder this) (rank c))
   \<and> (\<not> occupied c this \<longrightarrow> \<not> js_gt (callOrder this) (rank c) \<longrightarrow>
        invoke c this = (Inr (), put c (this\<lparr>callOrder := Some (rank c)\<rparr>)))
   \<and> (build c0 cs = Inr this \<longrightarrow>
        js_gt (callOrder this) (rank c) = (rank c < highest_rank (executed c0 cs)))"
  by (simp add: invoke_eq build_counter)

theorem order_error_iff_witness:
  "build (Id ''x'') []
     = Inr \<lparr>el_element = '''', el_id = ''x'', el_class = [], el_attr = [],
         el_pseudoClass = [], el_pseudoElement = '''', callOrder = Some 2\<rparr>
   \<and> rank (Element ''y'') < highest_rank (executed (Id ''x'') [])
   \<and> fst (invoke (Element ''y'')
        \<lparr>el_element = '''', el_id = ''x'', el_class = [], el_attr = [],
         el_pseudoClass = [], el_pseudoElement = '''', callOrder = Some 2\<rparr>)
     = Inl OrderError
   \<and> invoke (Class ''b'')
        \<lparr>el_element = '''', el_id = ''x'', el_class = [], el_attr = [],
         el_pseudoClass = [], el_pseudoElement = '''', callOrder = Some 2\<rparr>
     = (Inr (), \<lparr>el_element = '''', el_id = ''x'', el_class = [''b''], el_attr = [],
         el_pseudoClass = [], el_pseudoElement = '''', callOrder = Some 3\<rparr>)"
proof -
  let ?S = "\<lparr>el_element = '''', el_id = ''x'', el_class = [], el_attr = [],
         el_pseudoClass = [], el_pseudoElement = '''', callOrder = Some 2\<rparr>"
  have b: "build (Id ''x'') [] = Inr ?S"
    by code_simp
  have hr: "rank (Element ''y'') < highest_rank (executed (Id ''x'') [])"
    by (simp add: executed_def)
  have free: "\<not> occupied (Element ''y'') ?S" "\<not> occupied (Class ''b'') ?S"
    by simp_all
  have le: "\<not> js_gt (callOrder ?S) (rank (Class ''b''))"
    by (simp add: js_gt_def)
  from order_error_iff [of "Element ''y''" ?S "Id ''x''" "[]"] b hr free(1)
  have 1: "fst (invoke (Element ''y'') ?S) = Inl OrderError"
    by blast
  from order_error_iff [of "Class ''b''" ?S] free(2) le
  have 2: "invoke (Class ''b'') ?S = (Inr (), put (Class ''b'') (?S\<lparr>callOrder := Some (rank (Class ''b''))\<rparr>))"
    by blast
  from b hr 1 2 show ?thesis by simp
qed

text \<open>
  The claim as stated fails where a uniqueness violation applies as well: after
  \<^verbatim>\<open>element('a').id('x')\<close> the call \<^verbatim>\<open>element('b')\<close> has rank 1, below the highest
  rank 2 reached, and throws the uniqueness error, not the order error.
\<close>

theorem order_error_iff_counterexample:
  "build (Element ''a'') [Id ''x'']
     = Inr \<lparr>el_element = ''a'', el_id = ''x'', el_class = [], el_attr = [],
         el_pseudoClass = [], el_pseudoElement = '''', callOrder = Some 2\<rparr>
   \<and> rank (Element ''b'') < highest_rank (executed (Element ''a'') [Id ''x''])
   \<and> fst (invoke (Element ''b'')
        \<lparr>el_element = ''a'', el_id = ''x'', el_class = [], el_attr = [],
         el_pseudoClass = [], el_pseudoElement = '''', callOrder = Some 2\<rparr>)
     = Inl UniquenessError
   \<and> fst (invoke (Element ''b'')
        \<lparr>el_element = ''a'', el_id = ''x'', el_class = [], el_attr = [],
         el_pseudoClass = [], el_pseudoElement = '''', callOrder = Some 2\<rparr>)
     \<noteq> Inl OrderError"
proof -
  have "build (Element ''a'') [Id ''x'']
     = Inr \<lparr>el_element = ''a'', el_id = ''x'', el_class = [], el_attr = [],
         el_pseudoClass = [], el_pseudoElement = '''', callOrder = Some 2\<rparr>"
    by code_simp
  then show ?thesis
    by (simp add: executed_def element_def meth_defs)
qed

text \<open>
  C3, as amended. A call that sets element, id or pseudo-element on a selector where
  that part already holds a non-empty string throws the uniqueness error and leaves the
  selector as it was, whatever the rank counter is, so also when the order check would
  fail: the guard is tested before \<^verbatim>\<open>checkOrder\<close> is called. On a selector built
  by a facade call and a chain, every single-valued part to which one of the calls
  performed has given a non-empty string makes a further call of the same category
  throw the uniqueness error. The witness has \<^verbatim>\<open>id('x')\<close> then \<^verbatim>\<open>id('y')\<close>, and
  \<^verbatim>\<open>element('a').id('x')\<close> then \<^verbatim>\<open>element('b')\<close>, where the order is violated too.
\<close>

theorem uniqueness_first:
  "(occupied c this \<longrightarrow> invoke c this = (Inl UniquenessError, this))
   \<and> (build c0 cs = Inr this \<longrightarrow> c1 \<in> set (executed c0 cs) \<longrightarrow> exclusive c1 \<longrightarrow>
        arg c1 \<noteq> [] \<longrightarrow> rank c = rank c1 \<longrightarrow>
        invoke c this = (Inl UniquenessError, this))"
proof (intro conjI impI)
  assume "occupied c this"
  then show "invoke c this = (Inl UniquenessError, this)" by (simp add: invoke_eq)
next
  assume "build c0 cs = Inr this" and in_calls: "c1 \<in> set (executed c0 cs)"
    and ex: "exclusive c1" "arg c1 \<noteq> []" and same: "rank c = rank c1"
  then have "chain (executed c0 cs) fields_init = (Inr (), this)"
    by (simp add: build_chain)
  from chain_sets [OF this in_calls ex] have "occupied c this"
    by (simp add: occupied_same_rank [OF same])
  then show "invoke c this = (Inl UniquenessError, this)" by (simp add: invoke_eq)
qed

theorem uniqueness_first_witness:
  "build (Id ''x'') []
     = Inr \<lparr>el_element = '''', el_id = ''x'', el_class = [], el_attr = [],
         el_pseudoClass = [], el_pseudoElement = '''', callOrder = Some 2\<rparr>
   \<and> invoke (Id ''y'')
        \<lparr>el_element = '''', el_id = ''x'', el_class = [], el_attr = [],
         el_pseudoClass = [], el_pseudoElement = '''', callOrder = Some 2\<rparr>
     = (Inl UniquenessError,
        \<lparr>el_element = '''', el_id = ''x'', el_class = [], el_attr = [],
         el_pseudoClass = [], el_pseudoElement = '''', callOrder = Some 2\<rparr>)
   \<and> js_gt (Some 2) (rank (Element ''b''))
   \<and> invoke (Element ''b'')
        \<lparr>el_element = ''a'', el_id = ''x'', el_class = [], el_attr = [],
         el_pseudoClass = [], el_pseudoElement = '''', callOrder = Some 2\<rparr>
     = (Inl UniquenessError,
        \<lparr>el_element = ''a'', el_id = ''x'', el_class = [], el_attr = [],
         el_pseudoClass = [], el_pseudoElement = '''', callOrder = Some 2\<rparr>)"
proof -
  let ?S = "\<lparr>el_element = '''', el_id = ''x'', el_class = [], el_attr = [],
         el_pseudoClass = [], el_pseudoElement = '''', callOrder = Some 2\<rparr>"
  let ?T = "\<lparr>el_element = ''a'', el_id = ''x'', el_class = [], el_attr = [],
         el_pseudoClass = [], el_pseudoElement = '''', callOrder = Some 2\<rparr>"
  have b: "build (Id ''x'') [] = Inr ?S"
    by code_simp
  have m: "Id ''x'' \<in> set (executed (Id ''x'') [])" "exclusive (Id ''x'')"
    "arg (Id ''x'') \<noteq> []" "rank (Id ''y'') = rank (Id ''x'')"
    by (simp_all add: executed_def)
  from uniqueness_first [of "Id ''y''" ?S "Id ''x''" "[]" "Id ''x''"] b m
  have 1: "invoke (Id ''y'') ?S = (Inl UniquenessError, ?S)"
    by blast
  have "occupied (Element ''b'') ?T" by simp
  with uniqueness_first [of "Element ''b''" ?T]
  have 2: "invoke (Element ''b'') ?T = (Inl UniquenessError, ?T)"
    by blast
  have 3: "js_gt (Some 2) (rank (Element ''b''))"
    by (simp add: js_gt_def)
  from b 1 2 3 show ?thesis by simp
qed

text \<open>
  The claim as stated fails where the first attempt passed the empty string, which the
  guard (a test of the length) does not count as set: in
  \<^verbatim>\<open>element('a').id('').id('y')\<close> the second \<^verbatim>\<open>id\<close> call on the same selector
  succeeds.
\<close>

theorem uniqueness_first_counterexample:
  "build (Element ''a'') [Id []]
     = Inr \<lparr>el_element = ''a'', el_id = [], el_class = [], el_attr = [],
         el_pseudoClass = [], el_pseudoElement = [], callOrder = Some 2\<rparr>
   \<and> invoke (Id ''y'')
        \<lparr>el_element = ''a'', el_id = [], el_class = [], el_attr = [],
         el_pseudoClass = [], el_pseudoElement = [], callOrder = Some 2\<rparr>
     = (Inr (), \<lparr>el_element = ''a'', el_id = ''y'', el_class = [], el_attr = [],
         el_pseudoClass = [], el_pseudoElement = [], callOrder = Some 2\<rparr>)
   \<and> build (Element ''a'') [Id [], Id ''y'']
     = Inr \<lparr>el_element = ''a'', el_id = ''y'', el_class = [], el_attr = [],
         el_pseudoClass = [], el_pseudoElement = [], callOrder = Some 2\<rparr>"
proof -
  have "build (Element ''a'') [Id []]
     = Inr \<lparr>el_element = ''a'', el_id = [], el_class = [], el_attr = [],
         el_pseudoClass = [], el_pseudoElement = [], callOrder = Some 2\<rparr>"
    "build (Element ''a'') [Id [], Id ''y'']
     = Inr \<lparr>el_element = ''a'', el_id = ''y'', el_class = [], el_attr = [],
         el_pseudoClass = [], el_pseudoElement = [], callOrder = Some 2\<rparr>"
    by code_simp+
  then show ?thesis
    by (simp add: id_sel_def checkOrder_eq meth_defs js_gt_def)
qed

text \<open>
  C4, as amended. In the store semantics, on every reachable store: a facade call
  returns the address of a new instance (the first address that the store has not
  allocated), whose fields are those the one-instance facade gives: seeded with only
  the one token when the token is non-empty, and with no token when it is the empty
  string. A chain of calls on an allocated instance acts on that instance as the
  one-instance semantics says, and every successful chain returns the address it was
  called on. Whatever sequence of facade calls and chains a program goes through, an
  instance on which none of the chains is called is left unchanged, however many
  other instances there are, and no later facade call returns its address; the store
  stays reachable.
\<close>

theorem facade_instances_independent:
  assumes "wf_store h"
  shows "fst (s_facade c h) = Inr (length (selectors h))
    \<and> facade c = Inr (view (snd (s_facade c h)) (length (selectors h)))
    \<and> view (snd (s_facade c h)) (length (selectors h)) =
        (if length (arg c) \<noteq> 0 then put c (fields_init\<lparr>callOrder := Some (rank c)\<rparr>)
         else fields_init)
    \<and> (a < length (selectors h) \<longrightarrow>
          fst (s_chain cs a h) = map_sum id (\<lambda>_. a) (fst (chain cs (view h a)))
          \<and> view (snd (s_chain cs a h)) a = snd (chain cs (view h a)))
    \<and> (allowed as h \<longrightarrow> wf_store (fold act as h))
    \<and> (allowed as h \<longrightarrow> b < length (selectors h) \<longrightarrow>
          (\<forall>a cs. Chain a cs \<in> set as \<longrightarrow> a \<noteq> b) \<longrightarrow>
          view (fold act as h) b = view h b
          \<and> fst (s_facade c' (fold act as h)) \<noteq> Inr b)"
proof (intro conjI impI)
  note f = s_facade_sim [OF assms, of c]
  from f show "fst (s_facade c h) = Inr (length (selectors h))" by simp
  from f show "facade c = Inr (view (snd (s_facade c h)) (length (selectors h)))" by simp
  from f show "view (snd (s_facade c h)) (length (selectors h)) =
      (if length (arg c) \<noteq> 0 then put c (fields_init\<lparr>callOrder := Some (rank c)\<rparr>)
       else fields_init)"
    by (simp add: facade_ok)
next
  assume a: "a < length (selectors h)"
  from s_chain_sim [OF assms a, of cs]
  show "fst (s_chain cs a h) = map_sum id (\<lambda>_. a) (fst (chain cs (view h a)))"
    and "view (snd (s_chain cs a h)) a = snd (chain cs (view h a))"
    by simp_all
next
  assume "allowed as h"
  with acts_wf [OF assms] show "wf_store (fold act as h)" by simp
next
  assume al: "allowed as h" and b: "b < length (selectors h)"
    and nb: "\<forall>a cs. Chain a cs \<in> set as \<longrightarrow> a \<noteq> b"
  note fr = acts_frame [OF assms al b nb]
  from fr show "view (fold act as h) b = view h b" by simp
  from fr have "wf_store (fold act as h)" "b < length (selectors (fold act as h))"
    using b by simp_all
  with s_facade_sim [of "fold act as h" c']
  show "fst (s_facade c' (fold act as h)) \<noteq> Inr b" by simp
qed

text \<open>
  The witness: three facade calls from the empty store, then a chain on the first
  instance, a fourth facade call and a chain on the third instance. The second
  instance is as the facade call \<^verbatim>\<open>element('p')\<close> left it.
\<close>

theorem facade_instances_independent_witness:
  "fold act [Facade (Id ''x''), Facade (Element ''p''), Facade (Class ''q'')] empty_store
     = \<lparr>selectors =
          [\<lparr>el_element = [], el_id = ''x'', el_class = 0, el_attr = 1,
             el_pseudoClass = 2, el_pseudoElement = [], callOrder = Some 2\<rparr>,
           \<lparr>el_element = ''p'', el_id = [], el_class = 3, el_attr = 4,
             el_pseudoClass = 5, el_pseudoElement = [], callOrder = Some 1\<rparr>,
           \<lparr>el_element = [], el_id = [], el_class = 6, el_attr = 7,
             el_pseudoClass = 8, el_pseudoElement = [], callOrder = Some 3\<rparr>],
        arrays = [[], [], [], [], [], [], [''q''], [], []]\<rparr>
   \<and> wf_store
        (fold act [Facade (Id ''x''), Facade (Element ''p''), Facade (Class ''q'')]
           empty_store)
   \<and> view
        (fold act [Chain 0 [Class ''y'', Attr ''z''], Facade (Id ''w''), Chain 2 [Class ''r'']]
           (fold act [Facade (Id ''x''), Facade (Element ''p''), Facade (Class ''q'')]
              empty_store)) 1
     = \<lparr>el_element = ''p'', el_id = [], el_class = [], el_attr = [],
         el_pseudoClass = [], el_pseudoElement = [], callOrder = Some 1\<rparr>
   \<and> fst (s_facade (Id ''w'')
        (fold act [Facade (Id ''x''), Facade (Element ''p''), Facade (Class ''q'')]
           empty_store)) = Inr 3
   \<and> fst (s_chain [Class ''y'', Attr ''z''] 0
        (fold act [Facade (Id ''x''), Facade (Element ''p''), Facade (Class ''q'')]
           empty_store)) = Inr 0
   \<and> view (snd (s_chain [Class ''y'', Attr ''z''] 0
        (fold act [Facade (Id ''x''), Facade (Element ''p''), Facade (Class ''q'')]
           empty_store))) 0
     = \<lparr>el_element = [], el_id = ''x'', el_class = [''y''], el_attr = [''z''],
         el_pseudoClass = [], el_pseudoElement = [], callOrder = Some 4\<rparr>"
proof -
  let ?F = "[Facade (Id ''x''), Facade (Element ''p''), Facade (Class ''q'')]"
  let ?A = "[Chain 0 [Class ''y'', Attr ''z''], Facade (Id ''w''), Chain 2 [Class ''r'']]"
  let ?H = "\<lparr>selectors =
          [\<lparr>el_element = [], el_id = ''x'', el_class = 0, el_attr = 1,
             el_pseudoClass = 2, el_pseudoElement = [], callOrder = Some 2\<rparr>,
           \<lparr>el_element = ''p'', el_id = [], el_class = 3, el_attr = 4,
             el_pseudoClass = 5, el_pseudoElement = [], callOrder = Some 1\<rparr>,
           \<lparr>el_element = [], el_id = [], el_class = 6, el_attr = 7,
             el_pseudoClass = 8, el_pseudoElement = [], callOrder = Some 3\<rparr>],
        arrays = [[], [], [], [], [], [], [''q''], [], []]\<rparr>"
  have e: "fold act ?F empty_store = ?H"
    by code_simp
  have "allowed ?F empty_store"
    by simp
  with facade_instances_independent [OF wf_empty_store, where as = ?F]
  have "wf_store (fold act ?F empty_store)"
    by blast
  with e have wf: "wf_store ?H"
    by simp
  have al: "allowed ?A ?H"
    by code_simp
  have b: "(1::nat) < length (selectors ?H)" "(0::nat) < length (selectors ?H)"
    by simp_all
  have nb: "\<forall>a cs. Chain a cs \<in> set ?A \<longrightarrow> a \<noteq> 1"
    by auto
  note t = facade_instances_independent [OF wf, where as = ?A and b = 1 and a = 0
      and cs = "[Class ''y'', Attr ''z'']" and c = "Id ''w''"]
  from t al b nb have 1: "view (fold act ?A ?H) 1 = view ?H 1"
    by blast
  from t have 2: "fst (s_facade (Id ''w'') ?H) = Inr (length (selectors ?H))"
    by blast
  from t b have 3:
    "fst (s_chain [Class ''y'', Attr ''z''] 0 ?H)
       = map_sum id (\<lambda>_. 0) (fst (chain [Class ''y'', Attr ''z''] (view ?H 0)))"
    "view (snd (s_chain [Class ''y'', Attr ''z''] 0 ?H)) 0
       = snd (chain [Class ''y'', Attr ''z''] (view ?H 0))"
    by blast+
  have v: "view ?H 1 = \<lparr>el_element = ''p'', el_id = [], el_class = [], el_attr = [],
         el_pseudoClass = [], el_pseudoElement = [], callOrder = Some 1\<rparr>"
    "view ?H 0 = \<lparr>el_element = [], el_id = ''x'', el_class = [], el_attr = [],
         el_pseudoClass = [], el_pseudoElement = [], callOrder = Some 2\<rparr>"
    by (simp_all add: view_def)
  have c: "chain [Class ''y'', Attr ''z'']
      \<lparr>el_element = [], el_id = ''x'', el_class = [], el_attr = [],
         el_pseudoClass = [], el_pseudoElement = [], callOrder = Some 2\<rparr>
     = (Inr (), \<lparr>el_element = [], el_id = ''x'', el_class = [''y''], el_attr = [''z''],
         el_pseudoClass = [], el_pseudoElement = [], callOrder = Some 4\<rparr>)"
    by (simp add: class_sel_def attr_def checkOrder_eq meth_defs js_gt_def)
  from 1 have r1: "view (fold act ?A ?H) 1
      = \<lparr>el_element = ''p'', el_id = [], el_class = [], el_attr = [],
         el_pseudoClass = [], el_pseudoElement = [], callOrder = Some 1\<rparr>"
    by (simp only: v)
  from 2 have r2: "fst (s_facade (Id ''w'') ?H) = Inr 3"
    by simp
  from 3(1) have r3: "fst (s_chain [Class ''y'', Attr ''z''] 0 ?H) = Inr 0"
    by (simp only: v c fst_conv map_sum.simps)
  from 3(2) have r4: "view (snd (s_chain [Class ''y'', Attr ''z''] 0 ?H)) 0
      = \<lparr>el_element = [], el_id = ''x'', el_class = [''y''], el_attr = [''z''],
         el_pseudoClass = [], el_pseudoElement = [], callOrder = Some 4\<rparr>"
    by (simp only: v c snd_conv)
  show ?thesis
    unfolding e by (intro conjI refl wf r1 r2 r3 r4)
qed

text \<open>
  The claim as stated fails on the seed of an empty token. The facade call
  \<^verbatim>\<open>cssSelectorBuilder.class('')\<close> returns an instance with no class at all, which
  renders as the empty string, where the instance seeded with the token (as the
  method call \<^verbatim>\<open>class('')\<close> seeds it) has the one class \<^verbatim>\<open>''\<close> and renders as
  \<^verbatim>\<open>.\<close>: the constructor tests the length of the seed.
\<close>

theorem facade_instances_independent_counterexample:
  "s_facade (Class []) empty_store
     = (Inr 0,
        \<lparr>selectors =
           [\<lparr>el_element = [], el_id = [], el_class = 0, el_attr = 1,
              el_pseudoClass = 2, el_pseudoElement = [], callOrder = None\<rparr>],
         arrays = [[], [], []]\<rparr>)
   \<and> el_class (view
        \<lparr>selectors =
           [\<lparr>el_element = [], el_id = [], el_class = 0, el_attr = 1,
              el_pseudoClass = 2, el_pseudoElement = [], callOrder = None\<rparr>],
         arrays = [[], [], []]\<rparr> 0) = []
   \<and> fst (stringify (view
        \<lparr>selectors =
           [\<lparr>el_element = [], el_id = [], el_class = 0, el_attr = 1,
              el_pseudoClass = 2, el_pseudoElement = [], callOrder = None\<rparr>],
         arrays = [[], [], []]\<rparr> 0)) = Inr []
   \<and> facade (Class []) = Inr fields_init
   \<and> el_class (snd (class_sel [] fields_init)) = [[]]
   \<and> fst (stringify (snd (class_sel [] fields_init))) = Inr ''.''"
proof -
  have "s_facade (Class []) empty_store
     = (Inr 0,
        \<lparr>selectors =
           [\<lparr>el_element = [], el_id = [], el_class = 0, el_attr = 1,
              el_pseudoClass = 2, el_pseudoElement = [], callOrder = None\<rparr>],
         arrays = [[], [], []]\<rparr>)"
    by code_simp
  then show ?thesis
    by (simp add: view_def stringify_eq render_fields_def facade_ok class_sel_def
        checkOrder_eq meth_defs js_gt_def fields_init_def)
qed

text \<open>
  C5. The \<^verbatim>\<open>stringify\<close> of \<^verbatim>\<open>combine(a, t, b)\<close> returns what \<^verbatim>\<open>stringify\<close> of
  \<open>a\<close> returns, a space, the token as it was given, a space, and what
  \<^verbatim>\<open>stringify\<close> of \<open>b\<close> returns. The witness is the example of the claim.
\<close>

theorem combine_stringify:
  "fst (stringify_node a) = Inr x \<Longrightarrow> fst (stringify_node b) = Inr y \<Longrightarrow>
     fst (stringify_node (combine a t b)) = Inr (x @ '' '' @ t @ '' '' @ y)"
  by (cases "stringify_node a"; cases "stringify_node b") (simp add: combine_def)

theorem combine_stringify_witness:
  "build (Element ''div'') [Id ''main'']
     = Inr \<lparr>el_element = ''div'', el_id = ''main'', el_class = [], el_attr = [],
         el_pseudoClass = [], el_pseudoElement = '''', callOrder = Some 2\<rparr>
   \<and> build (Element ''table'') [Id ''data'']
     = Inr \<lparr>el_element = ''table'', el_id = ''data'', el_class = [], el_attr = [],
         el_pseudoClass = [], el_pseudoElement = '''', callOrder = Some 2\<rparr>
   \<and> fst (stringify_node (combine
        (Selector \<lparr>el_element = ''div'', el_id = ''main'', el_class = [], el_attr = [],
           el_pseudoClass = [], el_pseudoElement = '''', callOrder = Some 2\<rparr>)
        ''+''
        (Selector \<lparr>el_element = ''table'', el_id = ''data'', el_class = [], el_attr = [],
           el_pseudoClass = [], el_pseudoElement = '''', callOrder = Some 2\<rparr>)))
     = Inr ''div#main + table#data''"
proof -
  let ?A = "\<lparr>el_element = ''div'', el_id = ''main'', el_class = [], el_attr = [],
         el_pseudoClass = [], el_pseudoElement = '''', callOrder = Some 2\<rparr>"
  let ?B = "\<lparr>el_element = ''table'', el_id = ''data'', el_class = [], el_attr = [],
         el_pseudoClass = [], el_pseudoElement = '''', callOrder = Some 2\<rparr>"
  have b: "build (Element ''div'') [Id ''main''] = Inr ?A"
    "build (Element ''table'') [Id ''data''] = Inr ?B"
    by code_simp+
  have s: "fst (stringify_node (Selector ?A)) = Inr ''div#main''"
    "fst (stringify_node (Selector ?B)) = Inr ''table#data''"
    by (simp_all add: stringify_eq render_fields_def)
  from combine_stringify [OF s, of "''+''"] b show ?thesis by simp
qed

text \<open>
  C6. \<^verbatim>\<open>stringify\<close> leaves the instance as it found it, every field and the rank
  counter, returns a string (it never throws), and returns the same string when it is
  called again.
\<close>

theorem stringify_pure:
  "snd (stringify this) = this
   \<and> fst (stringify (snd (stringify this))) = fst (stringify this)
   \<and> (\<exists>s. fst (stringify this) = Inr s)"
  by (simp add: stringify_eq)







text \<open>
  C9. The empty string does not count as set. A facade call with the empty string
  returns a selector with no field set and the rank counter still undefined, which
  renders as the empty string and on which a later \<^verbatim>\<open>element\<close> call succeeds. A
  successful call \<^verbatim>\<open>element('')\<close>, \<^verbatim>\<open>id('')\<close> or \<^verbatim>\<open>pseudoElement('')\<close> can be
  followed by a call of the same method, which succeeds as well.
\<close>

theorem empty_string_not_set:
  "(arg c = [] \<longrightarrow> facade c = Inr fields_init)
   \<and> stringify fields_init = (Inr [], fields_init)
   \<and> callOrder fields_init = None
   \<and> fst (element y fields_init) = Inr ()
   \<and> (fst (element [] this) = Inr () \<longrightarrow> fst (element v (snd (element [] this))) = Inr ())
   \<and> (fst (id_sel [] this) = Inr () \<longrightarrow> fst (id_sel v (snd (id_sel [] this))) = Inr ())
   \<and> (fst (pseudoElement [] this) = Inr () \<longrightarrow>
        fst (pseudoElement v (snd (pseudoElement [] this))) = Inr ())"
proof (intro conjI)
  show "arg c = [] \<longrightarrow> facade c = Inr fields_init"
    by (simp add: facade_ok)
  show "stringify fields_init = (Inr [], fields_init)"
    by (simp add: stringify_eq render_fields_def fields_init_def)
  show "callOrder fields_init = None"
    by (simp add: fields_init_def)
  show "fst (element y fields_init) = Inr ()"
    by (simp add: element_def checkOrder_eq meth_defs js_gt_def fields_init_def)
  show "fst (element [] this) = Inr () \<longrightarrow> fst (element v (snd (element [] this))) = Inr ()"
    by (simp add: element_def checkOrder_eq meth_defs js_gt_def split: if_splits)
  show "fst (id_sel [] this) = Inr () \<longrightarrow> fst (id_sel v (snd (id_sel [] this))) = Inr ()"
    by (simp add: id_sel_def checkOrder_eq meth_defs js_gt_def split: if_splits)
  show "fst (pseudoElement [] this) = Inr () \<longrightarrow>
      fst (pseudoElement v (snd (pseudoElement [] this))) = Inr ()"
    by (simp add: pseudoElement_def checkOrder_eq meth_defs js_gt_def split: if_splits)
qed

theorem empty_string_not_set_witness:
  "facade (Element []) = Inr fields_init
   \<and> fst (element [] fields_init) = Inr ()
   \<and> fst (element ''y'' (snd (element [] fields_init))) = Inr ()
   \<and> fst (id_sel [] fields_init) = Inr ()
   \<and> fst (id_sel ''y'' (snd (id_sel [] fields_init))) = Inr ()
   \<and> fst (pseudoElement [] fields_init) = Inr ()
   \<and> fst (pseudoElement ''y'' (snd (pseudoElement [] fields_init))) = Inr ()
   \<and> build (Element []) [Element ''y'']
     = Inr \<lparr>el_element = ''y'', el_id = '''', el_class = [], el_attr = [],
         el_pseudoClass = [], el_pseudoElement = '''', callOrder = Some 1\<rparr>"
proof -
  have e: "arg (Element []) = []" by simp
  have ok: "fst (element [] fields_init) = Inr ()" "fst (id_sel [] fields_init) = Inr ()"
    "fst (pseudoElement [] fields_init) = Inr ()"
    by (simp_all add: element_def id_sel_def pseudoElement_def checkOrder_eq meth_defs
        js_gt_def fields_init_def)
  have b: "build (Element []) [Element ''y'']
     = Inr \<lparr>el_element = ''y'', el_id = '''', el_class = [], el_attr = [],
         el_pseudoClass = [], el_pseudoElement = '''', callOrder = Some 1\<rparr>"
    by code_simp
  from empty_string_not_set [of "Element []" "''y''" fields_init "''y''"] e ok b
  show ?thesis by blast
qed

text \<open>
  C10. A mutator that throws, with either error, leaves the instance exactly as it
  was: no field and no rank counter is written before the throw. The instance renders
  as before, and every later call on it does what it would have done without the
  failed call.
\<close>

theorem failed_call_atomic:
  "fst (invoke c this) = Inl e \<Longrightarrow>
     snd (invoke c this) = this
     \<and> stringify (snd (invoke c this)) = stringify this
     \<and> invoke c' (snd (invoke c this)) = invoke c' this"
  by (simp add: invoke_eq split: if_splits)

theorem failed_call_atomic_witness:
  "fst (invoke (Element ''y'')
        \<lparr>el_element = '''', el_id = ''x'', el_class = [], el_attr = [],
         el_pseudoClass = [], el_pseudoElement = '''', callOrder = Some 2\<rparr>)
     = Inl OrderError
   \<and> snd (invoke (Element ''y'')
        \<lparr>el_element = '''', el_id = ''x'', el_class = [], el_attr = [],
         el_pseudoClass = [], el_pseudoElement = '''', callOrder = Some 2\<rparr>)
     = \<lparr>el_element = '''', el_id = ''x'', el_class = [], el_attr = [],
         el_pseudoClass = [], el_pseudoElement = '''', callOrder = Some 2\<rparr>
   \<and> fst (invoke (Id ''z'')
        \<lparr>el_element = '''', el_id = ''x'', el_class = [], el_attr = [],
         el_pseudoClass = [], el_pseudoElement = '''', callOrder = Some 2\<rparr>)
     = Inl UniquenessError
   \<and> snd (invoke (Id ''z'')
        \<lparr>el_element = '''', el_id = ''x'', el_class = [], el_attr = [],
         el_pseudoClass = [], el_pseudoElement = '''', callOrder = Some 2\<rparr>)
     = \<lparr>el_element = '''', el_id = ''x'', el_class = [], el_attr = [],
         el_pseudoClass = [], el_pseudoElement = '''', callOrder = Some 2\<rparr>"
proof -
  let ?S = "\<lparr>el_element = '''', el_id = ''x'', el_class = [], el_attr = [],
         el_pseudoClass = [], el_pseudoElement = '''', callOrder = Some 2\<rparr>"
  have 1: "fst (invoke (Element ''y'') ?S) = Inl OrderError"
    by (simp add: element_def checkOrder_eq meth_defs js_gt_def)
  have 2: "fst (invoke (Id ''z'') ?S) = Inl UniquenessError"
    by (simp add: id_sel_def meth_defs)
  from failed_call_atomic [OF 1] failed_call_atomic [OF 2] 1 2 show ?thesis
    by blast
qed

end
